theory Spec2Isabelle
  imports Main
begin

section \<open>Shared vocabulary: errors, numbers, the clock\<close>

text \<open>
  The errors of \<^verbatim>\<open>errors.js\<close> that the sources raise, the argument error of
  \<^verbatim>\<open>Lock.extend\<close>, and \<open>Error\<close> for any other exception (a callback's own failure, a
  store's backend failure).
\<close>

datatype error =
    E_LOCK_NOT_OWNED
  | E_LOCK_TIMEOUT
  | E_LOCK_ALREADY_ACQUIRED
  | InvalidArgumentsException
  | Error string

text \<open>
  A JavaScript \<^verbatim>\<open>number\<close> as the sources use it: an integral count of milliseconds
  (or of attempts), or \<^verbatim>\<open>Number.POSITIVE_INFINITY\<close>. The comparison and the truthiness
  test are those of JavaScript on these values: \<open>0\<close> is the only falsy one.
\<close>

datatype number = Number int | POSITIVE_INFINITY

fun truthy :: "number \<Rightarrow> bool" where
  "truthy (Number n) = (n \<noteq> 0)"
| "truthy POSITIVE_INFINITY = True"

fun num_less :: "number \<Rightarrow> number \<Rightarrow> bool" where
  "num_less (Number a) (Number b) = (a < b)"
| "num_less (Number a) POSITIVE_INFINITY = True"
| "num_less POSITIVE_INFINITY b = False"

text \<open>
  The environment a store runs in. \<^verbatim>\<open>Date.now()\<close> is a stream of readings: \<open>clock e i\<close>
  is what the \<open>i\<close>-th call returns and \<open>reads e\<close> counts the calls made so far, so two
  reads inside one operation may differ. \<open>store e\<close> is the private state of the store.
\<close>

record 's env =
  clock :: "nat \<Rightarrow> int"
  reads :: nat
  store :: 's

definition Date_now :: "'s env \<Rightarrow> int \<times> 's env" where
  "Date_now e = (clock e (reads e), e\<lparr>reads := Suc (reads e)\<rparr>)"

section \<open>The in-memory store (\<^verbatim>\<open>drivers/memory.ts\<close>)\<close>

text \<open>
  \<^verbatim>\<open>MemoryLockEntry\<close>. The \<^verbatim>\<open>async-mutex\<close> package is not part of the repository; its
  mutex is modelled by what \<^verbatim>\<open>save\<close>, \<^verbatim>\<open>delete\<close> and \<^verbatim>\<open>forceDelete\<close> use of it. \<open>mutex\<close>
  says whether a releaser that has not been called yet is out, which is what decides
  whether \<^verbatim>\<open>tryAcquire\<close> is granted. A releaser is the closure \<^verbatim>\<open>acquire()\<close> hands out:
  it releases the mutex the first time it is called and does nothing afterwards, so it
  is modelled by its \<^verbatim>\<open>called\<close> flag; \<open>releaser = None\<close> is the field being \<^verbatim>\<open>undefined\<close>.
  \<open>expiresAt = None\<close> is \<^verbatim>\<open>undefined\<close> as well. Each store operation runs to completion
  before the next one starts. The package's queue of waiters is not modelled, so
  \<^verbatim>\<open>exists\<close>, which reports \<^verbatim>\<open>mutex.isLocked()\<close> and may see a refused waiter pass
  through the mutex, is left out, and with it \<^verbatim>\<open>Lock.isLocked\<close>.
\<close>

record MemoryLockEntry =
  mutex :: bool
  releaser :: "bool option"
  owner :: string
  expiresAt :: "number option"

record MemoryStore =
  locks :: "string \<rightharpoonup> MemoryLockEntry"

definition set_lock :: "string \<Rightarrow> MemoryLockEntry \<Rightarrow> MemoryStore env \<Rightarrow> MemoryStore env" where
  "set_lock key l e = e\<lparr>store := (store e)\<lparr>locks := (locks (store e))(key \<mapsto> l)\<rparr>\<rparr>"

text \<open>\<^verbatim>\<open>lock.releaser?.()\<close> and \<^verbatim>\<open>mutex.releaser()\<close>: the effect on the entry.\<close>

definition call_releaser :: "MemoryLockEntry \<Rightarrow> MemoryLockEntry" where
  "call_releaser l =
     (case releaser l of
        None \<Rightarrow> l
      | Some called \<Rightarrow> if called then l else l\<lparr>mutex := False, releaser := Some True\<rparr>)"

text \<open>
  \<^verbatim>\<open>tryAcquire(lock.mutex).acquire()\<close>: rejects (\<open>None\<close>) when the mutex is locked,
  otherwise locks it and yields a fresh releaser.
\<close>

definition tryAcquire_acquire :: "MemoryLockEntry \<Rightarrow> (MemoryLockEntry \<times> bool) option" where
  "tryAcquire_acquire l = (if mutex l then None else Some (l\<lparr>mutex := True\<rparr>, False))"

definition getOrCreateForKey ::
    "string \<Rightarrow> string \<Rightarrow> MemoryStore env \<Rightarrow> MemoryLockEntry \<times> MemoryStore env" where
  "getOrCreateForKey key ownr e =
     (case locks (store e) key of
        None \<Rightarrow>
          (let l = \<lparr>mutex = False, releaser = None, owner = ownr, expiresAt = None\<rparr>
           in (l, set_lock key l e))
      | Some l \<Rightarrow> (l, e))"

definition computeExpiresAt :: "int option \<Rightarrow> 's env \<Rightarrow> number \<times> 's env" where
  "computeExpiresAt ttl e =
     (case ttl of
        None \<Rightarrow> (POSITIVE_INFINITY, e)
      | Some t \<Rightarrow>
          if t \<noteq> 0 then (let (now, e') = Date_now e in (Number (now + t), e'))
          else (POSITIVE_INFINITY, e))"

definition isLockEntryExpired :: "MemoryLockEntry \<Rightarrow> 's env \<Rightarrow> bool \<times> 's env" where
  "isLockEntryExpired l e =
     (case expiresAt l of
        None \<Rightarrow> (False, e)
      | Some x \<Rightarrow>
          if truthy x then (let (now, e') = Date_now e in (num_less x (Number now), e'))
          else (False, e))"

definition MemoryStore_extend ::
    "string \<Rightarrow> string \<Rightarrow> int \<Rightarrow> MemoryStore env \<Rightarrow> (error + unit) \<times> MemoryStore env" where
  "MemoryStore_extend key ownr duration e =
     (case locks (store e) key of
        None \<Rightarrow> (Inl E_LOCK_NOT_OWNED, e)
      | Some l \<Rightarrow>
          if owner l \<noteq> ownr then (Inl E_LOCK_NOT_OWNED, e)
          else (let (x, e') = computeExpiresAt (Some duration) e
                in (Inr (), set_lock key (l\<lparr>expiresAt := Some x\<rparr>) e')))"

text \<open>
  \<^verbatim>\<open>save\<close>. Every failure inside the \<^verbatim>\<open>try\<close> block is the rejection of
  \<^verbatim>\<open>tryAcquire\<close>, which the \<^verbatim>\<open>catch\<close> turns into \<open>false\<close>; what was mutated before it
  stays mutated. The entry's \<open>owner\<close> is written by \<open>getOrCreateForKey\<close> only.
\<close>

definition MemoryStore_save ::
    "string \<Rightarrow> string \<Rightarrow> int option \<Rightarrow> MemoryStore env \<Rightarrow> (error + bool) \<times> MemoryStore env" where
  "MemoryStore_save key ownr ttl e =
     (let (l, e1) = getOrCreateForKey key ownr e;
          (expired, e2) = isLockEntryExpired l e1;
          l1 = (if expired then call_releaser l else l)
      in case tryAcquire_acquire l1 of
           None \<Rightarrow> (Inr False, set_lock key l1 e2)
         | Some (l2, r) \<Rightarrow>
             (let l3 = l2\<lparr>releaser := Some r\<rparr>;
                  (x, e3) = computeExpiresAt ttl e2
              in (Inr True, set_lock key (l3\<lparr>expiresAt := Some x\<rparr>) e3)))"

definition MemoryStore_delete ::
    "string \<Rightarrow> string \<Rightarrow> MemoryStore env \<Rightarrow> (error + unit) \<times> MemoryStore env" where
  "MemoryStore_delete key ownr e =
     (case locks (store e) key of
        None \<Rightarrow> (Inl E_LOCK_NOT_OWNED, e)
      | Some m \<Rightarrow>
          if releaser m = None then (Inl E_LOCK_NOT_OWNED, e)
          else if owner m \<noteq> ownr then (Inl E_LOCK_NOT_OWNED, e)
          else (Inr (), set_lock key (call_releaser m) e))"

definition MemoryStore_forceDelete ::
    "string \<Rightarrow> MemoryStore env \<Rightarrow> (error + unit) \<times> MemoryStore env" where
  "MemoryStore_forceDelete key e =
     (case locks (store e) key of
        None \<Rightarrow> (Inr (), e)
      | Some l \<Rightarrow> (Inr (), set_lock key (call_releaser l) e))"

section \<open>The lock (\<^verbatim>\<open>lock.ts\<close>)\<close>

subsection \<open>Durations, configuration, the store interface\<close>

text \<open>
  A \<^verbatim>\<open>Duration\<close> argument: absent (\<open>Undefined\<close>), \<^verbatim>\<open>null\<close>, or a number of milliseconds.
  Human-readable strings such as \<^verbatim>\<open>'2s'\<close> are left out: their parser is an external
  package.
\<close>

datatype Duration = Undefined | Null | Ms int

text \<open>
  Modelled from the spec: \<^verbatim>\<open>resolveDuration\<close> of \<^verbatim>\<open>helpers.js\<close>, which is not among the
  sources. It "normalizes a duration expressed as a number of milliseconds, ...,
  undefined (use default), or null/absent (no expiration) into a single numeric-or-null
  form"; \<open>None\<close> is that \<^verbatim>\<open>null\<close>.
\<close>

fun resolveDuration :: "Duration \<Rightarrow> int option \<Rightarrow> int option" where
  "resolveDuration Undefined dflt = dflt"
| "resolveDuration Null dflt = None"
| "resolveDuration (Ms n) dflt = Some n"

text \<open>\<^verbatim>\<open>config.retry\<close> of a \<^verbatim>\<open>ResolvedLockConfig\<close>; the logger is the \<open>EvDebug\<close> event below.\<close>

record ResolvedLockConfig =
  attempts :: number
  delay :: int
  timeout :: "int option"

text \<open>\<^verbatim>\<open>options.retry\<close> of \<^verbatim>\<open>LockAcquireOptions\<close>: each field may be absent.\<close>

record LockAcquireOptions =
  retry_attempts :: "number option"
  retry_delay :: Duration
  retry_timeout :: Duration

definition no_options :: LockAcquireOptions where
  "no_options = \<lparr>retry_attempts = None, retry_delay = Undefined, retry_timeout = Undefined\<rparr>"

text \<open>
  \<^verbatim>\<open>LockStore\<close>: the interface the lock calls. An operation may reject (\<open>Inl\<close>) and
  keeps whatever it changed before doing so. (\<open>extend_op\<close> is the interface's
  \<^verbatim>\<open>extend\<close>; \<^verbatim>\<open>exists\<close> and \<^verbatim>\<open>disconnect\<close> are not called by the operations below.)
\<close>

record 's LockStore =
  save :: "string \<Rightarrow> string \<Rightarrow> int option \<Rightarrow> 's env \<Rightarrow> (error + bool) \<times> 's env"
  delete :: "string \<Rightarrow> string \<Rightarrow> 's env \<Rightarrow> (error + unit) \<times> 's env"
  forceDelete :: "string \<Rightarrow> 's env \<Rightarrow> (error + unit) \<times> 's env"
  extend_op :: "string \<Rightarrow> string \<Rightarrow> int \<Rightarrow> 's env \<Rightarrow> (error + unit) \<times> 's env"

definition memoryStore :: "MemoryStore LockStore" where
  "memoryStore =
     \<lparr>save = MemoryStore_save, delete = MemoryStore_delete,
      forceDelete = MemoryStore_forceDelete, extend_op = MemoryStore_extend\<rparr>"

text \<open>The fields of a \<^verbatim>\<open>Lock\<close> that never change after construction.\<close>

record 's Lock =
  lock_key :: string
  lock_owner :: string
  lockStore :: "'s LockStore"
  lock_ttl :: "int option"
  config :: ResolvedLockConfig

text \<open>
  What the lock does to the outside, in order: each call on the store with its
  outcome, each \<^verbatim>\<open>setTimeout\<close> sleep, each \<^verbatim>\<open>logger.debug\<close> message.
\<close>

datatype event =
    EvSave string string "int option" "error + bool"
  | EvExtend string string int "error + unit"
  | EvDelete string string "error + unit"
  | EvForceDelete string "error + unit"
  | EvSleep "int option"
  | EvDebug string

text \<open>
  The state a lock operation runs in: the environment shared with the store, the lock's
  one mutable field \<^verbatim>\<open>#expirationTime\<close> (\<open>None\<close> is \<^verbatim>\<open>null\<close>), and the trace of events.
\<close>

record 's state =
  env :: "'s env"
  expirationTime :: "int option"
  trace :: "event list"

definition now_state :: "'s state \<Rightarrow> int \<times> 's state" where
  "now_state S = (let (t, e') = Date_now (env S) in (t, S\<lparr>env := e'\<rparr>))"

definition emit :: "event \<Rightarrow> 's state \<Rightarrow> 's state" where
  "emit ev S = S\<lparr>trace := trace S @ [ev]\<rparr>"

definition store_save :: "'s Lock \<Rightarrow> 's state \<Rightarrow> (error + bool) \<times> 's state" where
  "store_save L S =
     (let (r, e') = save (lockStore L) (lock_key L) (lock_owner L) (lock_ttl L) (env S)
      in (r, emit (EvSave (lock_key L) (lock_owner L) (lock_ttl L) r) (S\<lparr>env := e'\<rparr>)))"

definition store_delete :: "'s Lock \<Rightarrow> 's state \<Rightarrow> (error + unit) \<times> 's state" where
  "store_delete L S =
     (let (r, e') = delete (lockStore L) (lock_key L) (lock_owner L) (env S)
      in (r, emit (EvDelete (lock_key L) (lock_owner L) r) (S\<lparr>env := e'\<rparr>)))"

definition store_forceDelete :: "'s Lock \<Rightarrow> 's state \<Rightarrow> (error + unit) \<times> 's state" where
  "store_forceDelete L S =
     (let (r, e') = forceDelete (lockStore L) (lock_key L) (env S)
      in (r, emit (EvForceDelete (lock_key L) r) (S\<lparr>env := e'\<rparr>)))"

definition store_extend :: "'s Lock \<Rightarrow> int \<Rightarrow> 's state \<Rightarrow> (error + unit) \<times> 's state" where
  "store_extend L d S =
     (let (r, e') = extend_op (lockStore L) (lock_key L) (lock_owner L) d (env S)
      in (r, emit (EvExtend (lock_key L) (lock_owner L) d r) (S\<lparr>env := e'\<rparr>)))"

subsection \<open>\<^verbatim>\<open>acquire\<close>\<close>

text \<open>\<^verbatim>\<open>this.#ttl ? now + this.#ttl : null\<close>\<close>

definition ttl_expiration :: "int option \<Rightarrow> int \<Rightarrow> int option" where
  "ttl_expiration ttl now =
     (case ttl of None \<Rightarrow> None | Some t \<Rightarrow> if t \<noteq> 0 then Some (now + t) else None)"

text \<open>\<^verbatim>\<open>timeout && elapsed > timeout\<close>\<close>

definition timed_out :: "int option \<Rightarrow> int \<Rightarrow> bool" where
  "timed_out tmo elapsed = (case tmo of None \<Rightarrow> False | Some t \<Rightarrow> t \<noteq> 0 \<and> elapsed > t)"

text \<open>
  The \<^verbatim>\<open>while (attemptsDone++ < attemptsMax)\<close> loop. \<open>attemptsDone\<close> is the counter's
  value before the test. With unbounded attempts, no timeout and a store that never
  grants, the loop does not end: the function is partial, and \<open>None\<close> is not returning.
\<close>

partial_function (option) acquire_loop ::
    "'s Lock \<Rightarrow> number \<Rightarrow> int option \<Rightarrow> int option \<Rightarrow> int \<Rightarrow> int \<Rightarrow> 's state
       \<Rightarrow> ((error + unit) \<times> 's state) option" where
  "acquire_loop L attemptsMax dly tmo start attemptsDone S =
     (if num_less (Number attemptsDone) attemptsMax then
        (let (now, S1) = now_state S;
             (result, S2) = store_save L S1
         in case result of
              Inl e \<Rightarrow> Some (Inl e, S2)
            | Inr granted \<Rightarrow>
                if granted then
                  Some (Inr (), S2\<lparr>expirationTime := ttl_expiration (lock_ttl L) now\<rparr>)
                else if Number (attemptsDone + 1) = attemptsMax then
                  Some (Inl E_LOCK_TIMEOUT, S2)
                else
                  (let (t, S3) = now_state S2;
                       elapsed = t - start
                   in if timed_out tmo elapsed then Some (Inl E_LOCK_TIMEOUT, S3)
                      else acquire_loop L attemptsMax dly tmo start (attemptsDone + 1)
                             (emit (EvSleep dly) S3)))
      else Some (Inr (), S))"

declare acquire_loop.simps [code]

text \<open>
  What \<^verbatim>\<open>acquire\<close> works with: \<^verbatim>\<open>options.retry?.attempts ?? config.retry.attempts\<close>, and
  the delay and the timeout resolved against the configured ones.
\<close>

definition effective_attempts :: "'s Lock \<Rightarrow> LockAcquireOptions \<Rightarrow> number" where
  "effective_attempts L options =
     (case retry_attempts options of None \<Rightarrow> attempts (config L) | Some a \<Rightarrow> a)"

definition effective_delay :: "'s Lock \<Rightarrow> LockAcquireOptions \<Rightarrow> int option" where
  "effective_delay L options = resolveDuration (retry_delay options) (Some (delay (config L)))"

definition effective_timeout :: "'s Lock \<Rightarrow> LockAcquireOptions \<Rightarrow> int option" where
  "effective_timeout L options = resolveDuration (retry_timeout options) (timeout (config L))"

definition Lock_acquire ::
    "'s Lock \<Rightarrow> LockAcquireOptions \<Rightarrow> 's state \<Rightarrow> ((error + unit) \<times> 's state) option" where
  "Lock_acquire L options S =
     (let S0 = S\<lparr>expirationTime := None\<rparr>;
          attemptsMax = effective_attempts L options;
          dly = effective_delay L options;
          tmo = effective_timeout L options;
          (start, S1) = now_state S0
      in case acquire_loop L attemptsMax dly tmo start 0 S1 of
           None \<Rightarrow> None
         | Some (r, S2) \<Rightarrow>
             (case r of
                Inl e \<Rightarrow> Some (Inl e, S2)
              | Inr u \<Rightarrow> Some (Inr (), emit (EvDebug ''Lock acquired'') S2)))"

subsection \<open>The other operations\<close>

definition Lock_tryAcquire :: "'s Lock \<Rightarrow> 's state \<Rightarrow> (error + unit) \<times> 's state" where
  "Lock_tryAcquire L S =
     (let (result, S1) = store_save L S
      in case result of
           Inl e \<Rightarrow> (Inl e, S1)
         | Inr granted \<Rightarrow>
             if \<not> granted then (Inl E_LOCK_ALREADY_ACQUIRED, S1)
             else (case lock_ttl L of
                     None \<Rightarrow>
                       (Inr (), emit (EvDebug ''Lock acquired with tryAcquire()'')
                                  (S1\<lparr>expirationTime := None\<rparr>))
                   | Some t \<Rightarrow>
                       if t \<noteq> 0 then
                         (let (now, S2) = now_state S1
                          in (Inr (), emit (EvDebug ''Lock acquired with tryAcquire()'')
                                        (S2\<lparr>expirationTime := Some (now + t)\<rparr>)))
                       else
                         (Inr (), emit (EvDebug ''Lock acquired with tryAcquire()'')
                                    (S1\<lparr>expirationTime := None\<rparr>))))"

definition Lock_release :: "'s Lock \<Rightarrow> 's state \<Rightarrow> (error + unit) \<times> 's state" where
  "Lock_release L S =
     (let (r, S1) = store_delete L S
      in case r of
           Inl e \<Rightarrow> (Inl e, S1)
         | Inr u \<Rightarrow> (Inr (), emit (EvDebug ''Lock released'') S1))"

definition Lock_forceRelease :: "'s Lock \<Rightarrow> 's state \<Rightarrow> (error + unit) \<times> 's state" where
  "Lock_forceRelease L S = store_forceDelete L S"

definition Lock_isExpired :: "'s state \<Rightarrow> bool \<times> 's state" where
  "Lock_isExpired S =
     (case expirationTime S of
        None \<Rightarrow> (False, S)
      | Some x \<Rightarrow> (let (now, S1) = now_state S in (x < now, S1)))"

definition Lock_getRemainingTime :: "'s state \<Rightarrow> int option \<times> 's state" where
  "Lock_getRemainingTime S =
     (case expirationTime S of
        None \<Rightarrow> (None, S)
      | Some x \<Rightarrow> (let (now, S1) = now_state S in (Some (x - now), S1)))"

text \<open>
  \<^verbatim>\<open>extend(ttl?)\<close>: \<^verbatim>\<open>ttl ? resolveDuration(ttl) : this.#ttl\<close>, where only a non-zero
  number is truthy.
\<close>

definition extend_duration :: "'s Lock \<Rightarrow> Duration \<Rightarrow> int option" where
  "extend_duration L ttl =
     (case ttl of
        Ms n \<Rightarrow> if n \<noteq> 0 then resolveDuration (Ms n) None else lock_ttl L
      | Null \<Rightarrow> lock_ttl L
      | Undefined \<Rightarrow> lock_ttl L)"

definition Lock_extend :: "'s Lock \<Rightarrow> Duration \<Rightarrow> 's state \<Rightarrow> (error + unit) \<times> 's state" where
  "Lock_extend L ttl S =
     (case extend_duration L ttl of
        None \<Rightarrow> (Inl InvalidArgumentsException, S)
      | Some resolvedTtl \<Rightarrow>
          if resolvedTtl = 0 then (Inl InvalidArgumentsException, S)
          else
            (let (now, S1) = now_state S;
                 (r, S2) = store_extend L resolvedTtl S1
             in case r of
                  Inl e \<Rightarrow> (Inl e, S2)
                | Inr u \<Rightarrow>
                    (Inr (), emit (EvDebug ''Lock extended'')
                               (S2\<lparr>expirationTime := Some (now + resolvedTtl)\<rparr>))))"

text \<open>
  \<^verbatim>\<open>run(callback)\<close>: the \<^verbatim>\<open>finally\<close> block runs whatever the \<^verbatim>\<open>try\<close> block did, and an
  exception thrown inside it replaces the pending outcome of the \<^verbatim>\<open>try\<close> block. The
  callback is any computation on the state that returns a value or throws.
\<close>

definition Lock_run ::
    "'s Lock \<Rightarrow> ('s state \<Rightarrow> (error + 'a) \<times> 's state) \<Rightarrow> 's state
       \<Rightarrow> ((error + 'a) \<times> 's state) option" where
  "Lock_run L callback S =
     (case Lock_acquire L no_options S of
        None \<Rightarrow> None
      | Some (ra, S1) \<Rightarrow>
          (let (rt, S2) = (case ra of Inl e \<Rightarrow> (Inl e, S1) | Inr u \<Rightarrow> callback S1);
               (rf, S3) = Lock_release L S2
           in Some (case rf of Inl e \<Rightarrow> Inl e | Inr u \<Rightarrow> rt, S3)))"

section \<open>Scenarios and auxiliary notions\<close>

text \<open>
  A new \<^verbatim>\<open>MemoryStore\<close> under a clock that starts at 1000 and advances by 10 at every
  reading, and the states a key goes through when owner \<open>a\<close> takes it without a TTL,
  releases it, and owner \<open>b\<close> takes it next.
\<close>

definition fresh_env :: "MemoryStore env" where
  "fresh_env = \<lparr>clock = (\<lambda>i. 1000 + 10 * int i), reads = 0, store = \<lparr>locks = Map.empty\<rparr>\<rparr>"

definition held_env :: "MemoryStore env" where
  "held_env = snd (MemoryStore_save ''k'' ''a'' None fresh_env)"

definition released_env :: "MemoryStore env" where
  "released_env = snd (MemoryStore_delete ''k'' ''a'' held_env)"

definition reacquired_env :: "MemoryStore env" where
  "reacquired_env = snd (MemoryStore_save ''k'' ''b'' None released_env)"

text \<open>Owner \<open>a\<close> takes the key for 50 ms at time 1000; \<open>later_env\<close> is the store 100 ms on.\<close>

definition leased_env :: "MemoryStore env" where
  "leased_env = snd (MemoryStore_save ''k'' ''a'' (Some 50) fresh_env)"

definition later_env :: "MemoryStore env" where
  "later_env = leased_env\<lparr>reads := 10\<rparr>"

text \<open>
  Then owner \<open>b\<close> takes the expired key without a TTL, and owner \<open>a\<close>, unaware, releases
  its old lease.
\<close>

definition reclaimed_env :: "MemoryStore env" where
  "reclaimed_env = snd (MemoryStore_save ''k'' ''b'' None later_env)"

definition robbed_env :: "MemoryStore env" where
  "robbed_env = snd (MemoryStore_delete ''k'' ''a'' reclaimed_env)"

text \<open>The number of \<open>save\<close> calls recorded in a trace.\<close>

fun is_save :: "event \<Rightarrow> bool" where
  "is_save (EvSave k ow ttl r) = True"
| "is_save ev = False"

definition save_calls :: "event list \<Rightarrow> nat" where
  "save_calls tr = length (filter is_save tr)"

text \<open>No timeout is in force: \<^verbatim>\<open>timeout\<close> is absent, \<^verbatim>\<open>null\<close> or \<open>0\<close>.\<close>

definition no_timeout :: "int option \<Rightarrow> bool" where
  "no_timeout tmo = (case tmo of None \<Rightarrow> True | Some t \<Rightarrow> t = 0)"

text \<open>The expiry the in-memory store holds for a key.\<close>

definition entry_expiry :: "string \<Rightarrow> MemoryStore state \<Rightarrow> number option" where
  "entry_expiry k S = (case locks (store (env S)) k of None \<Rightarrow> None | Some l \<Rightarrow> expiresAt l)"

text \<open>
  Two stores in the manner of the test suite's \<^verbatim>\<open>FakeStore\<close> classes, which override one
  method: a memory store whose \<open>save\<close> never grants, and one whose \<open>delete\<close> always
  rejects (the lease was lost).
\<close>

definition refusingStore :: "MemoryStore LockStore" where
  "refusingStore = memoryStore\<lparr>save := (\<lambda>k ow ttl e. (Inr False, e))\<rparr>"

definition lostLeaseStore :: "MemoryStore LockStore" where
  "lostLeaseStore = memoryStore\<lparr>delete := (\<lambda>k ow e. (Inl E_LOCK_NOT_OWNED, e))\<rparr>"

text \<open>Locks and states for the scenarios: five attempts 10 ms apart unless said otherwise.\<close>

definition retry5 :: ResolvedLockConfig where
  "retry5 = \<lparr>attempts = Number 5, delay = 10, timeout = None\<rparr>"

definition refused_lock :: "MemoryStore Lock" where
  "refused_lock = \<lparr>lock_key = ''k'', lock_owner = ''a'', lockStore = refusingStore,
                    lock_ttl = Some 50, config = retry5\<rparr>"


definition patient_lock :: "MemoryStore Lock" where
  "patient_lock =
     refused_lock\<lparr>config := \<lparr>attempts = POSITIVE_INFINITY, delay = 10, timeout = Some 45\<rparr>\<rparr>"

definition memory_lock :: "MemoryStore Lock" where
  "memory_lock = \<lparr>lock_key = ''k'', lock_owner = ''a'', lockStore = memoryStore,
                   lock_ttl = Some 50, config = retry5\<rparr>"

definition second_lock :: "MemoryStore Lock" where
  "second_lock = \<lparr>lock_key = ''k'', lock_owner = ''b'', lockStore = memoryStore,
                   lock_ttl = None, config = retry5\<rparr>"

definition lost_lock :: "MemoryStore Lock" where
  "lost_lock = memory_lock\<lparr>lockStore := lostLeaseStore\<rparr>"

definition fresh_state :: "MemoryStore state" where
  "fresh_state = \<lparr>env = fresh_env, expirationTime = None, trace = []\<rparr>"

definition released_state :: "MemoryStore state" where
  "released_state = \<lparr>env = released_env, expirationTime = None, trace = []\<rparr>"

definition leased_state :: "MemoryStore state" where
  "leased_state = \<lparr>env = leased_env, expirationTime = Some 1050, trace = []\<rparr>"

definition failing_callback :: "MemoryStore state \<Rightarrow> (error + unit) \<times> MemoryStore state" where
  "failing_callback S = (Inl (Error ''boom''), S)"

definition answering_callback :: "MemoryStore state \<Rightarrow> (error + nat) \<times> MemoryStore state" where
  "answering_callback S = (Inr 42, S)"

section \<open>Properties of the in-memory store\<close>

lemmas memory_defs =
  MemoryStore_save_def MemoryStore_delete_def MemoryStore_extend_def
  MemoryStore_forceDelete_def getOrCreateForKey_def isLockEntryExpired_def
  call_releaser_def tryAcquire_acquire_def computeExpiresAt_def set_lock_def Date_now_def



text \<open>
  Claim C1 (mutual exclusion of \<open>save\<close>). The claim does not hold of the driver. Owner
  \<open>a\<close> takes the key for 50 ms and lets the lease expire; owner \<open>b\<close> is granted the key
  without a TTL, so \<open>b\<close>'s lease never expires, and \<open>b\<close> never releases it. The entry
  still names \<open>a\<close> as its owner, so a late \<open>delete\<close> by \<open>a\<close> is accepted and frees the
  primitive that \<open>b\<close> holds. The next \<open>save\<close>, by a third owner \<open>c\<close>, returns \<open>true\<close> while
  \<open>b\<close>'s lease is live, and \<open>b\<close>'s own \<open>delete\<close> is refused afterwards.
\<close>

theorem save_granted_during_live_lease:
  "fst (MemoryStore_save ''k'' ''a'' (Some 50) fresh_env) = Inr True
   \<and> fst (MemoryStore_save ''k'' ''b'' None later_env) = Inr True
   \<and> map_option mutex (locks (store reclaimed_env) ''k'') = Some True
   \<and> map_option expiresAt (locks (store reclaimed_env) ''k'') = Some (Some POSITIVE_INFINITY)
   \<and> map_option owner (locks (store reclaimed_env) ''k'') = Some ''a''
   \<and> fst (MemoryStore_delete ''k'' ''a'' reclaimed_env) = Inr ()
   \<and> fst (MemoryStore_save ''k'' ''c'' None robbed_env) = Inr True
   \<and> fst (MemoryStore_delete ''k'' ''b'' (snd (MemoryStore_save ''k'' ''c'' None robbed_env)))
       = Inl E_LOCK_NOT_OWNED"
  by code_simp

text \<open>
  Claim C2 (\<open>save\<close> records the acquiring owner). The driver writes the entry's owner
  only when it creates the entry. Owner \<open>a\<close> takes and releases the key; owner \<open>b\<close> is
  then granted it, yet the entry still names \<open>a\<close>, and both \<open>delete\<close> and \<open>extend\<close> by
  \<open>b\<close>, who holds the key, are refused as not owned.
\<close>

theorem save_keeps_first_owner:
  "fst (MemoryStore_save ''k'' ''b'' None released_env) = Inr True
   \<and> map_option owner (locks (store reacquired_env) ''k'') = Some ''a''
   \<and> map_option mutex (locks (store reacquired_env) ''k'') = Some True
   \<and> fst (MemoryStore_delete ''k'' ''b'' reacquired_env) = Inl E_LOCK_NOT_OWNED
   \<and> fst (MemoryStore_extend ''k'' ''b'' 10 reacquired_env) = Inl E_LOCK_NOT_OWNED"
  by code_simp

text \<open>
  Claim C6 (when \<open>delete\<close> fails). The driver tests whether a releaser was ever
  recorded, not whether the primitive is held, and a release does not clear the
  releaser. After owner \<open>a\<close> has taken and released the key, the key is free, and a
  second \<open>delete\<close> by \<open>a\<close> returns normally instead of failing with \<open>E_LOCK_NOT_OWNED\<close>.
\<close>

theorem delete_after_release_succeeds:
  "map_option mutex (locks (store released_env) ''k'') = Some False
   \<and> fst (MemoryStore_delete ''k'' ''a'' released_env) = Inr ()
   \<and> locks (store (snd (MemoryStore_delete ''k'' ''a'' released_env))) ''k''
       = locks (store released_env) ''k''"
  by code_simp



section \<open>Properties of the lock\<close>

subsection \<open>What one step does to the state\<close>

lemma now_state_fields [simp]:
  "trace (snd (now_state S)) = trace S"
  "expirationTime (snd (now_state S)) = expirationTime S"
  by (simp_all add: now_state_def Date_now_def split: prod.splits)

lemma store_save_fields [simp]:
  "trace (snd (store_save L S)) =
     trace S @ [EvSave (lock_key L) (lock_owner L) (lock_ttl L) (fst (store_save L S))]"
  "expirationTime (snd (store_save L S)) = expirationTime S"
  by (simp_all add: store_save_def emit_def split: prod.splits)

lemma save_calls_snoc [simp]:
  "save_calls (tr @ [ev]) = save_calls tr + (if is_save ev then 1 else 0)"
  by (simp add: save_calls_def)

lemma store_save_result:
  "fst (store_save L S) = fst (save (lockStore L) (lock_key L) (lock_owner L) (lock_ttl L) (env S))"
  by (simp add: store_save_def split: prod.splits)

lemma now_state_env [simp]:
  "clock (env (snd (now_state S))) = clock (env S)"
  "store (env (snd (now_state S))) = store (env S)"
  "reads (env (snd (now_state S))) = Suc (reads (env S))"
  "fst (now_state S) = clock (env S) (reads (env S))"
  by (simp_all add: now_state_def Date_now_def split: prod.splits)

lemma store_save_env:
  "env (snd (store_save L S)) =
     snd (save (lockStore L) (lock_key L) (lock_owner L) (lock_ttl L) (env S))"
  by (simp add: store_save_def emit_def split: prod.splits)

subsection \<open>The retry loop\<close>

text \<open>
  Against a store that always refuses, a loop with a finite bound ends, always with
  \<open>E_LOCK_TIMEOUT\<close>, after at least one and at most the remaining number of \<open>save\<close>
  calls, and after exactly that number when no timeout is in force.
\<close>

lemma acquire_loop_refused:
  assumes af: "\<And>e. fst (save (lockStore L) (lock_key L) (lock_owner L) (lock_ttl L) e) = Inr False"
  shows "a < m \<Longrightarrow> nat (m - a) = k \<Longrightarrow>
    \<exists>S' c. acquire_loop L (Number m) dly tmo start a S = Some (Inl E_LOCK_TIMEOUT, S')
       \<and> expirationTime S' = expirationTime S
       \<and> save_calls (trace S') = save_calls (trace S) + c
       \<and> 1 \<le> c \<and> int c \<le> m - a \<and> (no_timeout tmo \<longrightarrow> int c = m - a)"
proof (induction k arbitrary: a S)
  case 0
  then show ?case by simp
next
  case (Suc k)
  obtain now S1 where n1: "now_state S = (now, S1)" by (cases "now_state S")
  obtain r S2 where sv: "store_save L S1 = (r, S2)" by (cases "store_save L S1")
  have r: "r = Inr False"
    using store_save_result[of L S1] af sv by simp
  have tr2: "trace S2 = trace S @ [EvSave (lock_key L) (lock_owner L) (lock_ttl L) (Inr False)]"
    using store_save_fields(1)[of L S1] now_state_fields(1)[of S] n1 sv r by simp
  have ex2: "expirationTime S2 = expirationTime S"
    using store_save_fields(2)[of L S1] now_state_fields(2)[of S] n1 sv by simp
  obtain t S3 where n3: "now_state S2 = (t, S3)" by (cases "now_state S2")
  have tr3: "trace S3 = trace S2" and ex3: "expirationTime S3 = expirationTime S2"
    using now_state_fields[of S2] n3 by simp_all
  show ?case
  proof (cases "a + 1 = m")
    case True
    then have "acquire_loop L (Number m) dly tmo start a S = Some (Inl E_LOCK_TIMEOUT, S2)"
      using Suc.prems(1) by (subst acquire_loop.simps) (simp add: n1 sv r)
    then show ?thesis
      using tr2 ex2 True by (intro exI[of _ S2] exI[of _ 1]) simp
  next
    case False
    show ?thesis
    proof (cases "timed_out tmo (t - start)")
      case True
      then have nt: "\<not> no_timeout tmo"
        by (auto simp: timed_out_def no_timeout_def split: option.splits)
      have "acquire_loop L (Number m) dly tmo start a S = Some (Inl E_LOCK_TIMEOUT, S3)"
        using Suc.prems(1) False True
        by (subst acquire_loop.simps) (simp add: n1 sv r n3)
      then show ?thesis
        using tr2 ex2 tr3 ex3 nt Suc.prems(1)
        by (intro exI[of _ S3] exI[of _ 1]) simp
    next
      case nto: False
      let ?S4 = "emit (EvSleep dly) S3"
      have step: "acquire_loop L (Number m) dly tmo start a S
                  = acquire_loop L (Number m) dly tmo start (a + 1) ?S4"
        using Suc.prems(1) False nto
        by (subst acquire_loop.simps) (simp add: n1 sv r n3)
      have lt: "a + 1 < m" using Suc.prems(1) False by simp
      have k: "nat (m - (a + 1)) = k" using Suc.prems(2) by simp
      from Suc.IH[OF lt k, of ?S4]
      obtain S' c where
        res: "acquire_loop L (Number m) dly tmo start (a + 1) ?S4 = Some (Inl E_LOCK_TIMEOUT, S')"
        and ex: "expirationTime S' = expirationTime ?S4"
        and sc: "save_calls (trace S') = save_calls (trace ?S4) + c"
        and c: "1 \<le> c" "int c \<le> m - (a + 1)" "no_timeout tmo \<longrightarrow> int c = m - (a + 1)"
        by blast
      have tr4: "save_calls (trace ?S4) = Suc (save_calls (trace S))"
        by (simp add: emit_def tr3 tr2 save_calls_def)
      have ex4: "expirationTime ?S4 = expirationTime S"
        by (simp add: emit_def ex3 ex2)
      show ?thesis
        using res ex sc c tr4 ex4 step
        by (intro exI[of _ S'] exI[of _ "Suc c"]) auto
    qed
  qed
qed

text \<open>
  Induction over the iterations of a loop that returns: one case for each way an
  iteration ends.
\<close>

lemma acquire_loop_induct [consumes 1, case_names stop throw grant exhausted timeout retry]:
  assumes run: "acquire_loop L m dly tmo start a S = Some y"
    and stop: "\<And>a S. \<not> num_less (Number a) m \<Longrightarrow> P a S (Inr (), S)"
    and throw: "\<And>a S now S1 e S2.
        \<lbrakk>num_less (Number a) m; now_state S = (now, S1); store_save L S1 = (Inl e, S2)\<rbrakk>
        \<Longrightarrow> P a S (Inl e, S2)"
    and grant: "\<And>a S now S1 S2.
        \<lbrakk>num_less (Number a) m; now_state S = (now, S1); store_save L S1 = (Inr True, S2)\<rbrakk>
        \<Longrightarrow> P a S (Inr (), S2\<lparr>expirationTime := ttl_expiration (lock_ttl L) now\<rparr>)"
    and exhausted: "\<And>a S now S1 S2.
        \<lbrakk>num_less (Number a) m; now_state S = (now, S1); store_save L S1 = (Inr False, S2);
         Number (a + 1) = m\<rbrakk>
        \<Longrightarrow> P a S (Inl E_LOCK_TIMEOUT, S2)"
    and timeout: "\<And>a S now S1 S2 t S3.
        \<lbrakk>num_less (Number a) m; now_state S = (now, S1); store_save L S1 = (Inr False, S2);
         Number (a + 1) \<noteq> m; now_state S2 = (t, S3); timed_out tmo (t - start)\<rbrakk>
        \<Longrightarrow> P a S (Inl E_LOCK_TIMEOUT, S3)"
    and retry: "\<And>a S now S1 S2 t S3 y.
        \<lbrakk>num_less (Number a) m; now_state S = (now, S1); store_save L S1 = (Inr False, S2);
         Number (a + 1) \<noteq> m; now_state S2 = (t, S3); \<not> timed_out tmo (t - start);
         acquire_loop L m dly tmo start (a + 1) (emit (EvSleep dly) S3) = Some y;
         P (a + 1) (emit (EvSleep dly) S3) y\<rbrakk>
        \<Longrightarrow> P a S y"
  shows "P a S y"
proof -
  let ?Q = "\<lambda>L' m' dly' tmo' start' a S y.
      (L', m', dly', tmo', start') = (L, m, dly, tmo, start) \<longrightarrow>
      acquire_loop L m dly tmo start a S = Some y \<and> P a S y"
  have "?Q L m dly tmo start a S y"
  proof (rule acquire_loop.raw_induct[where P = ?Q, OF _ run], goal_cases)
    case (1 f L' m' dly' tmo' start' a S y)
    show ?case
    proof (intro impI)
      assume eq: "(L', m', dly', tmo', start') = (L, m, dly, tmo, start)"
      have IH: "\<And>a S y. f L m dly tmo start a S = Some y \<Longrightarrow>
                  acquire_loop L m dly tmo start a S = Some y \<and> P a S y"
        using 1(1) by blast
      note body = 1(2)
      obtain now S1 where n1: "now_state S = (now, S1)" by (cases "now_state S")
      obtain r S2 where sv: "store_save L S1 = (r, S2)" by (cases "store_save L S1")
      obtain t S3 where n3: "now_state S2 = (t, S3)" by (cases "now_state S2")
      show "acquire_loop L m dly tmo start a S = Some y \<and> P a S y"
      proof (cases "num_less (Number a) m")
        case False
        with body eq have "y = (Inr (), S)" by simp
        then show ?thesis using stop[OF False] False
          by (subst acquire_loop.simps) simp
      next
        case lt: True
        show ?thesis
        proof (cases r)
          case (Inl e)
          have svE: "store_save L S1 = (Inl e, S2)" using sv Inl by simp
          with body eq lt n1 have "y = (Inl e, S2)" by auto
          then show ?thesis using throw[OF lt n1 svE] lt n1 svE
            by (subst acquire_loop.simps) simp
        next
          case (Inr granted)
          show ?thesis
          proof (cases granted)
            case True
            have svT: "store_save L S1 = (Inr True, S2)" using sv Inr True by simp
            with body eq lt n1
            have "y = (Inr (), S2\<lparr>expirationTime := ttl_expiration (lock_ttl L) now\<rparr>)" by auto
            then show ?thesis using grant[OF lt n1 svT] lt n1 svT
              by (subst acquire_loop.simps) simp
          next
            case ng: False
            have sv': "store_save L S1 = (Inr False, S2)" using sv Inr ng by simp
            show ?thesis
            proof (cases "Number (a + 1) = m")
              case True
              with body eq lt n1 sv' have "y = (Inl E_LOCK_TIMEOUT, S2)" by auto
              then show ?thesis using exhausted[OF lt n1 sv' True] lt n1 sv' True
                by (subst acquire_loop.simps) simp
            next
              case nm: False
              show ?thesis
              proof (cases "timed_out tmo (t - start)")
                case True
                with body eq lt n1 sv' nm n3 have "y = (Inl E_LOCK_TIMEOUT, S3)" by auto
                then show ?thesis using timeout[OF lt n1 sv' nm n3 True] lt n1 sv' nm n3 True
                  by (subst acquire_loop.simps) simp
              next
                case False
                with body eq lt n1 sv' nm n3
                have rec: "f L m dly tmo start (a + 1) (emit (EvSleep dly) S3) = Some y" by auto
                from IH[OF rec]
                have r1: "acquire_loop L m dly tmo start (a + 1) (emit (EvSleep dly) S3) = Some y"
                  and r2: "P (a + 1) (emit (EvSleep dly) S3) y" by simp_all
                have "acquire_loop L m dly tmo start a S = Some y"
                  using r1 lt n1 sv' nm n3 False by (subst acquire_loop.simps) simp
                then show ?thesis using retry[OF lt n1 sv' nm n3 False r1 r2] by simp
              qed
            qed
          qed
        qed
      qed
    qed
  qed
  then show ?thesis by simp
qed

lemma acquire_loop_timeout_trace:
  assumes "acquire_loop L m dly tmo start a S = Some y"
    and nt: "\<forall>e. fst (save (lockStore L) (lock_key L) (lock_owner L) (lock_ttl L) e)
                 \<noteq> Inl E_LOCK_TIMEOUT"
  shows "fst y = Inl E_LOCK_TIMEOUT \<longrightarrow>
         (\<exists>evs. trace (snd y) =
                  trace S @ evs @ [EvSave (lock_key L) (lock_owner L) (lock_ttl L) (Inr False)])"
  using assms(1)
proof (induction rule: acquire_loop_induct)
  case (stop a S)
  then show ?case by simp
next
  case (throw a S now S1 e S2)
  then show ?case using nt store_save_result[of L S1] by auto
next
  case (grant a S now S1 S2)
  then show ?case by simp
next
  case (exhausted a S now S1 S2)
  then show ?case
    using store_save_fields(1)[of L S1] now_state_fields(1)[of S] by simp
next
  case (timeout a S now S1 S2 t S3)
  then show ?case
    using store_save_fields(1)[of L S1] now_state_fields(1)[of S] now_state_fields(1)[of S2]
    by simp
next
  case (retry a S now S1 S2 t S3 y)
  let ?ev = "EvSave (lock_key L) (lock_owner L) (lock_ttl L) (Inr False)"
  have tr: "trace (emit (EvSleep dly) S3) = trace S @ [?ev, EvSleep dly]"
    using retry.hyps store_save_fields(1)[of L S1] now_state_fields(1)[of S]
      now_state_fields(1)[of S2]
    by (simp add: emit_def)
  show ?case
  proof
    assume "fst y = Inl E_LOCK_TIMEOUT"
    with retry.IH obtain evs where "trace (snd y) = trace (emit (EvSleep dly) S3) @ evs @ [?ev]"
      by blast
    then have "trace (snd y) = trace S @ ([?ev, EvSleep dly] @ evs) @ [?ev]"
      by (simp add: tr)
    then show "\<exists>evs. trace (snd y) = trace S @ evs @ [?ev]" by blast
  qed
qed

lemma attempt_store_kept:
  assumes "now_state S = (now, S1)" and "store_save L S1 = (r, S2)"
    and "\<forall>e. store (snd (save (lockStore L) (lock_key L) (lock_owner L) (lock_ttl L) e))
              = store e"
  shows "store (env S2) = store (env S)"
proof -
  have "S1 = snd (now_state S)" "S2 = snd (store_save L S1)"
    using assms(1,2) by simp_all
  then show ?thesis
    using assms(3) by (simp add: store_save_env)
qed

lemma acquire_loop_store_kept:
  assumes "acquire_loop L m dly tmo start a S = Some y"
    and keep: "\<forall>e. store (snd (save (lockStore L) (lock_key L) (lock_owner L) (lock_ttl L) e))
                  = store e"
  shows "store (env (snd y)) = store (env S)"
  using assms(1)
proof (induction rule: acquire_loop_induct)
  case (stop a S)
  show ?case by simp
next
  case (throw a S now S1 e S2)
  then show ?case using attempt_store_kept[OF _ _ keep] by simp
next
  case (grant a S now S1 S2)
  then show ?case using attempt_store_kept[OF _ _ keep] by simp
next
  case (exhausted a S now S1 S2)
  then show ?case using attempt_store_kept[OF _ _ keep] by simp
next
  case (timeout a S now S1 S2 t S3)
  have "S3 = snd (now_state S2)" using timeout by simp
  then show ?case using attempt_store_kept[OF timeout(2,3) keep] by simp
next
  case (retry a S now S1 S2 t S3 y)
  have "S3 = snd (now_state S2)" using retry.hyps by simp
  then show ?case
    using attempt_store_kept[OF retry.hyps(2,3) keep] retry.IH by (simp add: emit_def)
qed

lemma Lock_acquire_unfold:
  "Lock_acquire L options S =
     (case acquire_loop L (effective_attempts L options) (effective_delay L options)
             (effective_timeout L options) (clock (env S) (reads (env S))) 0
             (snd (now_state (S\<lparr>expirationTime := None\<rparr>))) of
        None \<Rightarrow> None
      | Some (r, S2) \<Rightarrow>
          (case r of
             Inl e \<Rightarrow> Some (Inl e, S2)
           | Inr u \<Rightarrow> Some (Inr (), emit (EvDebug ''Lock acquired'') S2)))"
  by (simp add: Lock_acquire_def Let_def now_state_def Date_now_def split: prod.splits)

lemma Lock_acquire_error:
  assumes "Lock_acquire L options S = Some (Inl e, S')"
  shows "acquire_loop L (effective_attempts L options) (effective_delay L options)
           (effective_timeout L options) (clock (env S) (reads (env S))) 0
           (snd (now_state (S\<lparr>expirationTime := None\<rparr>))) = Some (Inl e, S')"
  using assms unfolding Lock_acquire_unfold
  by (auto split: option.splits prod.splits sum.splits)

lemma Lock_acquire_refused:
  assumes refuses:
      "\<forall>e. fst (save (lockStore L) (lock_key L) (lock_owner L) (lock_ttl L) e) = Inr False"
    and n: "effective_attempts L options = Number (int n)" and pos: "1 \<le> n"
  shows "\<exists>S' c. Lock_acquire L options S = Some (Inl E_LOCK_TIMEOUT, S')
           \<and> save_calls (trace S') = save_calls (trace S) + c
           \<and> 1 \<le> c \<and> c \<le> n
           \<and> (no_timeout (effective_timeout L options) \<longrightarrow> c = n)
           \<and> expirationTime S' = None"
proof -
  let ?S1 = "snd (now_state (S\<lparr>expirationTime := None\<rparr>))"
  have lt: "(0::int) < int n" using pos by simp
  from acquire_loop_refused[of L 0 "int n" n "effective_delay L options"
      "effective_timeout L options" "clock (env S) (reads (env S))" ?S1] refuses lt
  obtain S' c where
    res: "acquire_loop L (Number (int n)) (effective_delay L options)
            (effective_timeout L options) (clock (env S) (reads (env S))) 0 ?S1
          = Some (Inl E_LOCK_TIMEOUT, S')"
    and ex: "expirationTime S' = expirationTime ?S1"
    and sc: "save_calls (trace S') = save_calls (trace ?S1) + c"
    and c: "1 \<le> c" "int c \<le> int n - 0"
      "no_timeout (effective_timeout L options) \<longrightarrow> int c = int n - 0"
    by auto
  have "Lock_acquire L options S = Some (Inl E_LOCK_TIMEOUT, S')"
    unfolding Lock_acquire_unfold n using res by simp
  moreover have "expirationTime S' = None" using ex by simp
  moreover have "save_calls (trace S') = save_calls (trace S) + c" using sc by simp
  ultimately show ?thesis using c by auto
qed




text \<open>
  Claim C8 (the timeout never fires before an attempt). Whenever \<open>acquire\<close> throws
  \<open>E_LOCK_TIMEOUT\<close> (the store's \<open>save\<close> not throwing that error itself), the last thing
  it did was a \<open>save\<close> call that completed and returned \<open>false\<close>: at least one attempt
  was made, and no sleep lies between the failed attempt and the failure.
\<close>

theorem acquire_timeout_after_attempt:
  assumes "Lock_acquire L options S = Some (Inl E_LOCK_TIMEOUT, S')"
    and "\<forall>e. fst (save (lockStore L) (lock_key L) (lock_owner L) (lock_ttl L) e)
             \<noteq> Inl E_LOCK_TIMEOUT"
  shows "\<exists>evs. trace S' =
           trace S @ evs @ [EvSave (lock_key L) (lock_owner L) (lock_ttl L) (Inr False)]"
proof -
  from acquire_loop_timeout_trace[OF Lock_acquire_error[OF assms(1)] assms(2)]
  show ?thesis by simp
qed

theorem acquire_timeout_after_attempt_witness:
  "\<exists>S' evs. Lock_acquire patient_lock no_options fresh_state = Some (Inl E_LOCK_TIMEOUT, S')
      \<and> trace S' = trace fresh_state @ evs @ [EvSave ''k'' ''a'' (Some 50) (Inr False)]
      \<and> save_calls (trace S') = 3"
proof -
  have "\<exists>S'. Lock_acquire patient_lock no_options fresh_state = Some (Inl E_LOCK_TIMEOUT, S')
             \<and> save_calls (trace S') = 3"
    by (simp add: Lock_acquire_unfold acquire_loop.simps effective_attempts_def
        effective_delay_def effective_timeout_def no_options_def patient_lock_def
        refused_lock_def refusingStore_def retry5_def fresh_state_def fresh_env_def
        now_state_def store_save_def emit_def Date_now_def timed_out_def save_calls_def
        Let_def)
  then obtain S' where
    a: "Lock_acquire patient_lock no_options fresh_state = Some (Inl E_LOCK_TIMEOUT, S')"
    and c: "save_calls (trace S') = 3"
    by blast
  have n: "\<forall>e. fst (save (lockStore patient_lock) (lock_key patient_lock)
                      (lock_owner patient_lock) (lock_ttl patient_lock) e)
               \<noteq> Inl E_LOCK_TIMEOUT"
    by (simp add: patient_lock_def refused_lock_def refusingStore_def)
  from acquire_timeout_after_attempt[OF a n] a c
  show ?thesis
    by (simp add: patient_lock_def refused_lock_def)
qed

text \<open>
  Claim C10 (\<open>run\<close> releases even when the acquisition fails). The lock is on a memory
  store whose \<open>save\<close> never grants, and the store has no entry for the key. If \<open>acquire\<close>
  inside \<open>run\<close> throws \<open>E_LOCK_TIMEOUT\<close>, then \<open>run\<close> still calls \<open>release\<close>; the store's
  \<open>delete\<close> rejects with \<open>E_LOCK_NOT_OWNED\<close>, and that error, not the timeout, is what
  \<open>run\<close> throws. The callback is not run.
\<close>

theorem run_releases_after_failed_acquire:
  assumes "lockStore L = refusingStore"
    and "locks (store (env S)) (lock_key L) = None"
    and "Lock_acquire L no_options S = Some (Inl E_LOCK_TIMEOUT, S1)"
  shows "Lock_run L callback S =
           Some (Inl E_LOCK_NOT_OWNED,
                 emit (EvDelete (lock_key L) (lock_owner L) (Inl E_LOCK_NOT_OWNED)) S1)"
proof -
  have keep: "\<forall>e. store (snd (save (lockStore L) (lock_key L) (lock_owner L) (lock_ttl L) e))
                 = store e"
    by (simp add: assms(1) refusingStore_def)
  from acquire_loop_store_kept[OF Lock_acquire_error[OF assms(3)] keep]
  have "store (env S1) = store (env S)" by simp
  then have none: "locks (store (env S1)) (lock_key L) = None"
    using assms(2) by simp
  have del: "delete (lockStore L) = MemoryStore_delete"
    by (simp add: assms(1) refusingStore_def memoryStore_def)
  have rel: "Lock_release L S1 =
               (Inl E_LOCK_NOT_OWNED,
                emit (EvDelete (lock_key L) (lock_owner L) (Inl E_LOCK_NOT_OWNED)) S1)"
    by (simp add: Lock_release_def store_delete_def del MemoryStore_delete_def none)
  show ?thesis
    by (simp add: Lock_run_def assms(3) rel)
qed

theorem run_releases_after_failed_acquire_witness:
  "\<exists>S1. Lock_acquire refused_lock no_options fresh_state = Some (Inl E_LOCK_TIMEOUT, S1)
      \<and> Lock_run refused_lock answering_callback fresh_state =
          Some (Inl E_LOCK_NOT_OWNED, emit (EvDelete ''k'' ''a'' (Inl E_LOCK_NOT_OWNED)) S1)"
proof -
  have r: "\<forall>e. fst (save (lockStore refused_lock) (lock_key refused_lock)
                      (lock_owner refused_lock) (lock_ttl refused_lock) e) = Inr False"
    by (simp add: refused_lock_def refusingStore_def)
  have n: "effective_attempts refused_lock no_options = Number (int 5)"
    by (simp add: effective_attempts_def refused_lock_def no_options_def retry5_def)
  from Lock_acquire_refused[OF r n, of fresh_state]
  obtain S1 where
    a: "Lock_acquire refused_lock no_options fresh_state = Some (Inl E_LOCK_TIMEOUT, S1)"
    by auto
  have s: "lockStore refused_lock = refusingStore"
    by (simp add: refused_lock_def)
  have f: "locks (store (env fresh_state)) (lock_key refused_lock) = None"
    by (simp add: fresh_state_def fresh_env_def)
  from run_releases_after_failed_acquire[OF s f a, of answering_callback] a
  show ?thesis
    by (simp add: refused_lock_def)
qed

text \<open>
  Claim C5 (\<open>extend\<close> changes the expiration time only on success). With a resolvable,
  non-zero duration \<open>d\<close>: if the store's \<open>extend\<close> rejects with \<open>e\<close>, then \<open>Lock.extend\<close>
  throws \<open>e\<close> and the expiration time, hence the remaining time read at any given
  instant, is what it was before the call; if the store's \<open>extend\<close> succeeds, the
  expiration time becomes the clock reading taken before the store call plus \<open>d\<close>.
\<close>

theorem extend_updates_only_on_success:
  assumes "extend_duration L ttl = Some d" and "d \<noteq> 0"
  shows "(fst (extend_op (lockStore L) (lock_key L) (lock_owner L) d (snd (Date_now (env S))))
            = Inl e \<longrightarrow>
          fst (Lock_extend L ttl S) = Inl e
          \<and> expirationTime (snd (Lock_extend L ttl S)) = expirationTime S
          \<and> fst (Lock_getRemainingTime (snd (Lock_extend L ttl S)))
              = fst (Lock_getRemainingTime (S\<lparr>env := env (snd (Lock_extend L ttl S))\<rparr>)))
       \<and> (fst (extend_op (lockStore L) (lock_key L) (lock_owner L) d (snd (Date_now (env S))))
            = Inr () \<longrightarrow>
          fst (Lock_extend L ttl S) = Inr ()
          \<and> expirationTime (snd (Lock_extend L ttl S))
              = Some (clock (env S) (reads (env S)) + d))"
  using assms
  by (auto simp: Lock_extend_def Lock_getRemainingTime_def store_extend_def now_state_def
      Date_now_def emit_def Let_def split: prod.splits sum.splits option.splits)

theorem extend_updates_only_on_success_witness:
  "fst (Lock_extend memory_lock (Ms 200) (fresh_state\<lparr>expirationTime := Some 1060\<rparr>))
     = Inl E_LOCK_NOT_OWNED
   \<and> expirationTime (snd (Lock_extend memory_lock (Ms 200)
                            (fresh_state\<lparr>expirationTime := Some 1060\<rparr>))) = Some 1060
   \<and> fst (Lock_extend memory_lock (Ms 200) leased_state) = Inr ()
   \<and> expirationTime (snd (Lock_extend memory_lock (Ms 200) leased_state)) = Some 1210"
proof -
  let ?S = "fresh_state\<lparr>expirationTime := Some 1060\<rparr>"
  have d: "extend_duration memory_lock (Ms 200) = Some 200"
    by (simp add: extend_duration_def)
  have x: "fst (extend_op (lockStore memory_lock) (lock_key memory_lock)
                 (lock_owner memory_lock) 200 (snd (Date_now (env ?S)))) = Inl E_LOCK_NOT_OWNED"
    by (simp add: memory_lock_def memoryStore_def MemoryStore_extend_def fresh_state_def
        fresh_env_def Date_now_def)
  have y: "fst (extend_op (lockStore memory_lock) (lock_key memory_lock)
                 (lock_owner memory_lock) 200 (snd (Date_now (env leased_state)))) = Inr ()"
    by (simp add: memory_lock_def memoryStore_def leased_state_def leased_env_def
        fresh_env_def memory_defs Let_def)
  have c: "clock (env leased_state) (reads (env leased_state)) = 1010"
    by (simp add: leased_state_def leased_env_def fresh_env_def memory_defs Let_def)
  from extend_updates_only_on_success[OF d, of ?S E_LOCK_NOT_OWNED]
    extend_updates_only_on_success[OF d, of leased_state E_LOCK_NOT_OWNED] x y c
  show ?thesis
    by (simp add: fresh_state_def)
qed

text \<open>
  Claim C4, as the code has it (\<open>run\<close> and the outcome of the callback). Once the
  acquisition with the default options has succeeded, \<open>run\<close> invokes the callback and
  then calls \<open>release\<close> (the store's \<open>delete\<close>), whether the callback returned or threw.
  If the release succeeds, \<open>run\<close> ends as the callback did: its result, or its error.
  If the release throws, \<open>run\<close> throws the error of the release, whatever the callback
  did.
\<close>

theorem run_outcome:
  assumes "Lock_acquire L no_options S = Some (Inr (), S1)"
    and "callback S1 = (rc, S2)"
    and "Lock_release L S2 = (rr, S3)"
  shows "Lock_run L callback S = Some ((case rr of Inl e \<Rightarrow> Inl e | Inr u \<Rightarrow> rc), S3)
         \<and> (\<exists>r rest. trace S3 = trace S2 @ EvDelete (lock_key L) (lock_owner L) r # rest)"
proof -
  have "Lock_run L callback S = Some ((case rr of Inl e \<Rightarrow> Inl e | Inr u \<Rightarrow> rc), S3)"
    by (simp add: Lock_run_def assms)
  moreover have "\<exists>r rest. trace S3 = trace S2 @ EvDelete (lock_key L) (lock_owner L) r # rest"
    using assms(3)
    by (auto simp: Lock_release_def store_delete_def emit_def split: prod.splits sum.splits)
  ultimately show ?thesis by simp
qed

theorem run_outcome_witness:
  "map_option fst (Lock_run memory_lock answering_callback fresh_state) = Some (Inr 42)
   \<and> map_option fst (Lock_run memory_lock failing_callback fresh_state)
       = Some (Inl (Error ''boom''))"
proof -
  have "\<exists>S1. Lock_acquire memory_lock no_options fresh_state = Some (Inr (), S1)
             \<and> locks (store (env S1)) ''k''
                 = Some \<lparr>mutex = True, releaser = Some False, owner = ''a'',
                         expiresAt = Some (Number 1070)\<rparr>"
    by (simp add: Lock_acquire_unfold acquire_loop.simps effective_attempts_def
        effective_delay_def effective_timeout_def no_options_def memory_lock_def
        memoryStore_def retry5_def fresh_state_def fresh_env_def now_state_def
        store_save_def emit_def ttl_expiration_def memory_defs Let_def)
  then obtain S1 where
    a: "Lock_acquire memory_lock no_options fresh_state = Some (Inr (), S1)"
    and l: "locks (store (env S1)) ''k''
              = Some \<lparr>mutex = True, releaser = Some False, owner = ''a'',
                      expiresAt = Some (Number 1070)\<rparr>"
    by blast
  obtain S3 where r: "Lock_release memory_lock S1 = (Inr (), S3)"
    using l
    by (simp add: Lock_release_def store_delete_def memory_lock_def memoryStore_def
        MemoryStore_delete_def)
  have c1: "answering_callback S1 = (Inr 42, S1)"
    by (simp add: answering_callback_def)
  have c2: "failing_callback S1 = (Inl (Error ''boom''), S1)"
    by (simp add: failing_callback_def)
  from run_outcome[where callback = answering_callback, OF a c1 r]
    run_outcome[where callback = failing_callback, OF a c2 r]
  show ?thesis by simp
qed

text \<open>
  Claim C4 as stated, refuted: the callback throws \<open>Error ''boom''\<close>, the release that
  follows throws \<open>E_LOCK_NOT_OWNED\<close>, and \<open>run\<close> throws \<open>E_LOCK_NOT_OWNED\<close>: the
  callback's error is lost. First on the memory store, where owner \<open>b\<close> was granted a
  key whose entry owner \<open>a\<close> had created; then on a store whose \<open>delete\<close> rejects.
\<close>

theorem run_release_error_masks_callback_error:
  "map_option fst (Lock_run second_lock failing_callback released_state)
     = Some (Inl E_LOCK_NOT_OWNED)
   \<and> map_option fst (Lock_run lost_lock failing_callback fresh_state)
       = Some (Inl E_LOCK_NOT_OWNED)"
proof -
  have "map_option fst (Lock_run second_lock failing_callback released_state)
          = Some (Inl E_LOCK_NOT_OWNED)"
    by (simp add: Lock_run_def Lock_release_def store_delete_def failing_callback_def
        Lock_acquire_unfold acquire_loop.simps effective_attempts_def
        effective_delay_def effective_timeout_def no_options_def second_lock_def
        memoryStore_def retry5_def released_state_def released_env_def held_env_def
        fresh_env_def now_state_def store_save_def emit_def ttl_expiration_def memory_defs
        Let_def)
  moreover
  have "map_option fst (Lock_run lost_lock failing_callback fresh_state)
          = Some (Inl E_LOCK_NOT_OWNED)"
    by (simp add: Lock_run_def Lock_release_def store_delete_def failing_callback_def
        Lock_acquire_unfold acquire_loop.simps effective_attempts_def
        effective_delay_def effective_timeout_def no_options_def lost_lock_def
        memory_lock_def lostLeaseStore_def memoryStore_def retry5_def fresh_state_def
        fresh_env_def now_state_def store_save_def emit_def ttl_expiration_def memory_defs
        Let_def)
  ultimately show ?thesis by simp
qed

subsection \<open>The local estimate and the store's expiry\<close>

lemma memory_save_clock: "clock (snd (MemoryStore_save k ow ttl e)) = clock e"
  by (auto simp: memory_defs Let_def split: option.splits if_splits prod.splits)

lemma memory_save_expiry:
  assumes "fst (MemoryStore_save k ow (Some t) e) = Inr True" and "t \<noteq> 0"
  shows "\<exists>l j. locks (store (snd (MemoryStore_save k ow (Some t) e))) k = Some l
           \<and> expiresAt l = Some (Number (clock e j + t)) \<and> reads e \<le> j"
  using assms
  by (auto simp: memory_defs Let_def split: option.splits if_splits prod.splits)

lemma memory_extend_expiry:
  assumes "fst (MemoryStore_extend k ow d e) = Inr ()" and "d \<noteq> 0"
  shows "\<exists>l. locks (store (snd (MemoryStore_extend k ow d e))) k = Some l
           \<and> expiresAt l = Some (Number (clock e (reads e) + d))"
  using assms
  by (auto simp: memory_defs Let_def split: option.splits if_splits prod.splits)

lemma num_less_next:
  assumes "num_less (Number a) m" and "Number (a + 1) \<noteq> m"
  shows "num_less (Number (a + 1)) m"
  using assms by (cases m) auto

lemma acquire_loop_expiry:
  assumes "acquire_loop L m dly tmo start a S = Some y"
    and st: "lockStore L = memoryStore" and ttl: "lock_ttl L = Some t" "t \<noteq> 0"
  shows "mono (clock (env S)) \<longrightarrow> num_less (Number a) m \<longrightarrow> fst y = Inr () \<longrightarrow>
         (\<exists>x z. expirationTime (snd y) = Some x
               \<and> entry_expiry (lock_key L) (snd y) = Some (Number z) \<and> x \<le> z)"
  using assms(1)
proof (induction rule: acquire_loop_induct)
  case (stop a S)
  then show ?case by simp
next
  case (throw a S now S1 e S2)
  then show ?case by simp
next
  case (grant a S now S1 S2)
  show ?case
  proof (intro impI)
    assume mono: "mono (clock (env S))"
    have S1: "S1 = snd (now_state S)" and now: "now = clock (env S) (reads (env S))"
      using grant(2) by (simp_all add: now_state_def Date_now_def split: prod.splits)
    have S2: "S2 = snd (store_save L S1)" and ok: "fst (store_save L S1) = Inr True"
      using grant(3) by simp_all
    let ?e = "env S1"
    have sv: "fst (MemoryStore_save (lock_key L) (lock_owner L) (Some t) ?e) = Inr True"
      using ok by (simp add: store_save_result st ttl memoryStore_def)
    from memory_save_expiry[OF sv ttl(2)]
    obtain l j where
      l: "locks (store (snd (MemoryStore_save (lock_key L) (lock_owner L) (Some t) ?e)))
            (lock_key L) = Some l"
      and x: "expiresAt l = Some (Number (clock ?e j + t))" and j: "reads ?e \<le> j"
      by blast
    have env2: "env S2 = snd (MemoryStore_save (lock_key L) (lock_owner L) (Some t) ?e)"
      using S2 by (simp add: store_save_env st ttl memoryStore_def)
    have ck: "clock ?e = clock (env S)" and rd: "reads ?e = Suc (reads (env S))"
      using S1 by simp_all
    have "clock (env S) (reads (env S)) \<le> clock (env S) j"
      using mono j rd by (simp add: mono_def)
    then have le: "now + t \<le> clock ?e j + t"
      using now ck by simp
    show "\<exists>x z. expirationTime
                  (snd (Inr (), S2\<lparr>expirationTime := ttl_expiration (lock_ttl L) now\<rparr>))
                = Some x
              \<and> entry_expiry (lock_key L)
                  (snd (Inr (), S2\<lparr>expirationTime := ttl_expiration (lock_ttl L) now\<rparr>))
                = Some (Number z)
              \<and> x \<le> z"
      using l x le env2
      by (simp add: ttl_expiration_def ttl entry_expiry_def)
  qed
next
  case (exhausted a S now S1 S2)
  then show ?case by simp
next
  case (timeout a S now S1 S2 t S3)
  then show ?case by simp
next
  case (retry a S now S1 S2 u S3 y)
  have S1: "S1 = snd (now_state S)" using retry.hyps(2) by simp
  have S2: "S2 = snd (store_save L S1)" using retry.hyps(3) by simp
  have S3: "S3 = snd (now_state S2)" using retry.hyps(5) by simp
  have ck: "clock (env (emit (EvSleep dly) S3)) = clock (env S)"
    using S1 S2 S3
    by (simp add: emit_def store_save_env st memoryStore_def memory_save_clock)
  have nx: "num_less (Number (a + 1)) m"
    using num_less_next[OF retry.hyps(1,4)] .
  show ?case
    using retry.IH ck nx by simp
qed

text \<open>
  Claim C9, as the code has it (the local estimate against the store's expiry). On the
  memory store, under a clock whose readings never decrease: after a successful
  \<open>acquire\<close> of a lock with a non-zero TTL that allows at least one attempt, and after a
  successful \<open>extend\<close>, the lock's \<open>expirationTime\<close> is no later than the \<open>expiresAt\<close> the
  store recorded in that call. The lock reads the clock before it calls the store, the
  store reads it afterwards.
\<close>

theorem expiry_estimate_not_late:
  assumes "lockStore L = memoryStore" and "mono (clock (env S))"
  shows "(lock_ttl L = Some t \<and> t \<noteq> 0 \<and> num_less (Number 0) (effective_attempts L options)
          \<and> Lock_acquire L options S = Some (Inr (), S') \<longrightarrow>
            (\<exists>x z. expirationTime S' = Some x
                  \<and> entry_expiry (lock_key L) S' = Some (Number z) \<and> x \<le> z))
       \<and> (Lock_extend L d S = (Inr (), S'') \<longrightarrow>
            (\<exists>x z. expirationTime S'' = Some x
                  \<and> entry_expiry (lock_key L) S'' = Some (Number z) \<and> x \<le> z))"
proof (intro conjI impI)
  assume h: "lock_ttl L = Some t \<and> t \<noteq> 0
             \<and> num_less (Number 0) (effective_attempts L options)
             \<and> Lock_acquire L options S = Some (Inr (), S')"
  let ?S1 = "snd (now_state (S\<lparr>expirationTime := None\<rparr>))"
  from h obtain S2 where
    loop: "acquire_loop L (effective_attempts L options) (effective_delay L options)
             (effective_timeout L options) (clock (env S) (reads (env S))) 0 ?S1
           = Some (Inr (), S2)"
    and S': "S' = emit (EvDebug ''Lock acquired'') S2"
    unfolding Lock_acquire_unfold
    by (auto split: option.splits prod.splits sum.splits)
  have m: "mono (clock (env ?S1))"
    using assms(2) by simp
  from acquire_loop_expiry[OF loop assms(1), of t] h m
  obtain x z where "expirationTime S2 = Some x"
    "entry_expiry (lock_key L) S2 = Some (Number z)" "x \<le> z"
    by auto
  then show "\<exists>x z. expirationTime S' = Some x
                 \<and> entry_expiry (lock_key L) S' = Some (Number z) \<and> x \<le> z"
    using S' by (simp add: emit_def entry_expiry_def)
next
  assume h: "Lock_extend L d S = (Inr (), S'')"
  then obtain r where r: "extend_duration L d = Some r" "r \<noteq> 0"
    by (auto simp: Lock_extend_def split: option.splits if_splits)
  let ?e = "snd (Date_now (env S))"
  obtain q e2 where ex: "MemoryStore_extend (lock_key L) (lock_owner L) r ?e = (q, e2)"
    by (cases "MemoryStore_extend (lock_key L) (lock_owner L) r ?e")
  from h r ex have q: "q = Inr ()"
    and S'': "S'' = emit (EvDebug ''Lock extended'')
                     (emit (EvExtend (lock_key L) (lock_owner L) r (Inr ()))
                        (S\<lparr>env := e2\<rparr>)
                      \<lparr>expirationTime := Some (clock (env S) (reads (env S)) + r)\<rparr>)"
    by (auto simp: Lock_extend_def store_extend_def now_state_def Date_now_def assms(1)
        memoryStore_def Let_def split: sum.splits prod.splits)
  from memory_extend_expiry[of "lock_key L" "lock_owner L" r ?e] ex q r(2)
  obtain l where l: "locks (store e2) (lock_key L) = Some l"
    and x: "expiresAt l = Some (Number (clock ?e (reads ?e) + r))"
    by auto
  have "clock (env S) (reads (env S)) \<le> clock ?e (reads ?e)"
    using assms(2) by (simp add: Date_now_def mono_def)
  then show "\<exists>x z. expirationTime S'' = Some x
                 \<and> entry_expiry (lock_key L) S'' = Some (Number z) \<and> x \<le> z"
    using S'' l x by (simp add: emit_def entry_expiry_def)
qed

theorem expiry_estimate_not_late_witness:
  "\<exists>S' S''. Lock_acquire memory_lock no_options fresh_state = Some (Inr (), S')
      \<and> expirationTime S' = Some 1060
      \<and> entry_expiry ''k'' S' = Some (Number 1070)
      \<and> Lock_extend memory_lock (Ms 200) leased_state = (Inr (), S'')
      \<and> expirationTime S'' = Some 1210
      \<and> entry_expiry ''k'' S'' = Some (Number 1220)"
proof -
  have "\<exists>S'. Lock_acquire memory_lock no_options fresh_state = Some (Inr (), S')
             \<and> expirationTime S' = Some 1060 \<and> entry_expiry ''k'' S' = Some (Number 1070)"
    by (simp add: Lock_acquire_unfold acquire_loop.simps effective_attempts_def
        effective_delay_def effective_timeout_def no_options_def memory_lock_def
        memoryStore_def retry5_def fresh_state_def fresh_env_def now_state_def
        store_save_def emit_def ttl_expiration_def entry_expiry_def memory_defs Let_def)
  then obtain S' where
    a: "Lock_acquire memory_lock no_options fresh_state = Some (Inr (), S')"
    and a1: "expirationTime S' = Some 1060" "entry_expiry ''k'' S' = Some (Number 1070)"
    by blast
  have "\<exists>S''. Lock_extend memory_lock (Ms 200) leased_state = (Inr (), S'')
             \<and> expirationTime S'' = Some 1210 \<and> entry_expiry ''k'' S'' = Some (Number 1220)"
    by (simp add: Lock_extend_def extend_duration_def store_extend_def memory_lock_def
        memoryStore_def leased_state_def leased_env_def fresh_env_def now_state_def
        emit_def entry_expiry_def memory_defs Let_def)
  then obtain S'' where
    b: "Lock_extend memory_lock (Ms 200) leased_state = (Inr (), S'')"
    and b1: "expirationTime S'' = Some 1210" "entry_expiry ''k'' S'' = Some (Number 1220)"
    by blast
  have s: "lockStore memory_lock = memoryStore"
    by (simp add: memory_lock_def)
  have m1: "mono (clock (env fresh_state))"
    by (simp add: fresh_state_def fresh_env_def mono_def)
  have m2: "mono (clock (env leased_state))"
    by (simp add: leased_state_def leased_env_def fresh_env_def memory_save_clock mono_def)
  have n: "lock_ttl memory_lock = Some 50 \<and> (50::int) \<noteq> 0
           \<and> num_less (Number 0) (effective_attempts memory_lock no_options)"
    by (simp add: memory_lock_def effective_attempts_def no_options_def retry5_def)
  from expiry_estimate_not_late[OF s m1, of 50 no_options S'] a n
    expiry_estimate_not_late[OF s m2, of _ _ _ "Ms 200" S''] b a1 b1
  show ?thesis
    by blast
qed

text \<open>
  Claim C9 as stated, refuted: on a new memory store whose clock advances 10 ms per
  reading, \<open>acquire\<close> with a TTL of 50 ms succeeds, the store records the expiry 1070,
  and the lock's own estimate is 1060: earlier than the true expiry, not "no earlier".
  \<open>extend\<close> by 200 ms then gives 1210 against the store's 1220.
\<close>

theorem expiry_estimate_is_earlier:
  "map_option fst (Lock_acquire memory_lock no_options fresh_state) = Some (Inr ())
   \<and> map_option (expirationTime \<circ> snd) (Lock_acquire memory_lock no_options fresh_state)
       = Some (Some 1060)
   \<and> map_option (entry_expiry ''k'' \<circ> snd) (Lock_acquire memory_lock no_options fresh_state)
       = Some (Some (Number 1070))
   \<and> fst (Lock_extend memory_lock (Ms 200) leased_state) = Inr ()
   \<and> expirationTime (snd (Lock_extend memory_lock (Ms 200) leased_state)) = Some 1210
   \<and> entry_expiry ''k'' (snd (Lock_extend memory_lock (Ms 200) leased_state))
       = Some (Number 1220)"
proof -
  have "map_option fst (Lock_acquire memory_lock no_options fresh_state) = Some (Inr ())
   \<and> map_option (expirationTime \<circ> snd) (Lock_acquire memory_lock no_options fresh_state)
       = Some (Some 1060)
   \<and> map_option (entry_expiry ''k'' \<circ> snd) (Lock_acquire memory_lock no_options fresh_state)
       = Some (Some (Number 1070))"
    by (simp add: Lock_acquire_unfold acquire_loop.simps effective_attempts_def
        effective_delay_def effective_timeout_def no_options_def memory_lock_def
        memoryStore_def retry5_def fresh_state_def fresh_env_def now_state_def
        store_save_def emit_def ttl_expiration_def entry_expiry_def memory_defs Let_def)
  moreover
  have "fst (Lock_extend memory_lock (Ms 200) leased_state) = Inr ()
   \<and> expirationTime (snd (Lock_extend memory_lock (Ms 200) leased_state)) = Some 1210
   \<and> entry_expiry ''k'' (snd (Lock_extend memory_lock (Ms 200) leased_state))
       = Some (Number 1220)"
    by (simp add: Lock_extend_def extend_duration_def store_extend_def memory_lock_def
        memoryStore_def leased_state_def leased_env_def fresh_env_def now_state_def
        emit_def entry_expiry_def memory_defs Let_def)
  ultimately show ?thesis by simp
qed

end
